theory Spec2Isabelle
  imports Main
begin

section \<open>Bound kinds\<close>

text \<open>
  The enumeration \<open>bound_kind\<close> of \<open>range_tombstone.hh\<close>. The numeric codes (0, 1, 6, 7)
  are used by no function modelled here.
\<close>

datatype bound_kind = excl_end | incl_start | incl_end | excl_start

text \<open>
  Modelled from the spec: \<open>invert_kind\<close> is only declared in \<open>range_tombstone.hh\<close>
  (line 47). The spec's data model gives the complement of a kind, the kind that abuts it
  at an equal prefix: \<open>excl_end\<close> with \<open>incl_start\<close>, \<open>incl_end\<close> with \<open>excl_start\<close>.
\<close>

fun invert_kind :: "bound_kind \<Rightarrow> bound_kind" where
  "invert_kind excl_end = incl_start"
| "invert_kind incl_start = excl_end"
| "invert_kind incl_end = excl_start"
| "invert_kind excl_start = incl_end"

text \<open>
  Modelled from the spec: \<open>weight\<close> is only declared in \<open>range_tombstone.hh\<close> (line 48).
  The spec's data model gives the polarity of a kind: \<open>excl_end\<close> and \<open>incl_start\<close> are
  start-like (weight -1), \<open>incl_end\<close> and \<open>excl_start\<close> are end-like (weight +1).
\<close>

fun weight :: "bound_kind \<Rightarrow> int" where
  "weight excl_end = -1"
| "weight incl_start = -1"
| "weight incl_end = 1"
| "weight excl_start = 1"

text \<open>\<open>flip_bound_kind\<close>, lines 50 to 59; the switch covers every kind.\<close>

fun flip_bound_kind :: "bound_kind \<Rightarrow> bound_kind" where
  "flip_bound_kind excl_end = excl_start"
| "flip_bound_kind incl_end = incl_start"
| "flip_bound_kind excl_start = excl_end"
| "flip_bound_kind incl_start = incl_end"

section \<open>Schema, clustering key prefixes, tombstones\<close>

text \<open>
  A clustering key prefix is the list of its components. The schema is used through the
  column types of its clustering key only; each column type is represented by its
  three-way comparison (negative, zero, positive), the \<open>tri_compare\<close> passed at line 81.
\<close>

type_synonym 'a clustering_key_prefix = "'a list"

record 'a schema =
  clustering_key_types :: "('a \<Rightarrow> 'a \<Rightarrow> int) list"

text \<open>
  Modelled from the spec: \<open>prefix_equality_tri_compare\<close> is called at line 78 and defined
  outside \<open>range_tombstone.hh\<close>. The spec: compare the two prefixes component-wise using
  the schema's per-column ordering, only over the components present in the shorter
  prefix; the first non-zero result is the answer. A prefix has at most as many components
  as the schema has clustering columns; the model reports no difference past the last
  column type.
\<close>

fun prefix_equality_tri_compare ::
  "('a \<Rightarrow> 'a \<Rightarrow> int) list \<Rightarrow> 'a list \<Rightarrow> 'a list \<Rightarrow> int" where
  "prefix_equality_tri_compare (t # ts) (x # xs) (y # ys) =
     (let c = t x y in if c \<noteq> 0 then c else prefix_equality_tri_compare ts xs ys)"
| "prefix_equality_tri_compare _ _ _ = 0"

text \<open>
  Modelled from the spec: \<open>clustering_key_prefix::equal\<close> (used at lines 103, 106, 198
  and 220) is defined outside \<open>range_tombstone.hh\<close>. The spec calls it schema equality of
  prefixes: the same number of components, each pair equal under its column's ordering.
\<close>

definition prefix_equal :: "'a schema \<Rightarrow> 'a list \<Rightarrow> 'a list \<Rightarrow> bool" where
  "prefix_equal s p q \<longleftrightarrow>
     length p = length q \<and> prefix_equality_tri_compare (clustering_key_types s) p q = 0"

text \<open>
  Modelled from the spec: \<open>clustering_key_prefix::is_full\<close> (used at line 219) is defined
  outside \<open>range_tombstone.hh\<close>. The spec: the prefix is a complete clustering key.
\<close>

definition is_full :: "'a schema \<Rightarrow> 'a list \<Rightarrow> bool" where
  "is_full s p \<longleftrightarrow> length p = length (clustering_key_types s)"

text \<open>
  Modelled from the spec: \<open>tombstone\<close> comes from \<open>tombstone.hh\<close>, which is not part of the
  sources. The spec: a deletion timestamp and a deletion time; tombstones compare by
  deletion timestamp.
\<close>

record tombstone =
  timestamp :: int
  deletion_time :: int

section \<open>Bounds and their comparator\<close>

record 'a bound_view =
  prefix :: "'a list"
  kind :: bound_kind

text \<open>
  \<open>bound_view::compare::operator()\<close> on two (prefix, weight) pairs, lines 76 to 91.
  The weights and the comparison results are \<open>int32_t\<close> in the source; they are only
  compared, never computed with, so unbounded integers model them.
\<close>

definition compare_prefix_weight ::
  "'a schema \<Rightarrow> 'a list \<Rightarrow> int \<Rightarrow> 'a list \<Rightarrow> int \<Rightarrow> bool" where
  "compare_prefix_weight s p1 w1 p2 w2 =
     (let res = prefix_equality_tri_compare (clustering_key_types s) p1 p2 in
      if res \<noteq> 0 then res < 0
      else
        let d1 = length p1; d2 = length p2 in
        if d1 = d2 then w1 < w2
        else if d1 < d2 then w1 \<le> 0 else w2 > 0)"

text \<open>The three overloads of lines 92 to 100.\<close>

definition compare_bound_prefix :: "'a schema \<Rightarrow> 'a bound_view \<Rightarrow> 'a list \<Rightarrow> bool" where
  "compare_bound_prefix s b p = compare_prefix_weight s (prefix b) (weight (kind b)) p 0"

definition compare_prefix_bound :: "'a schema \<Rightarrow> 'a list \<Rightarrow> 'a bound_view \<Rightarrow> bool" where
  "compare_prefix_bound s p b = compare_prefix_weight s p 0 (prefix b) (weight (kind b))"

definition compare_bounds :: "'a schema \<Rightarrow> 'a bound_view \<Rightarrow> 'a bound_view \<Rightarrow> bool" where
  "compare_bounds s b1 b2 =
     compare_prefix_weight s (prefix b1) (weight (kind b1)) (prefix b2) (weight (kind b2))"

text \<open>
  The overload of lines 98 to 100 with \<open>weight\<close> taken as a parameter: the header declares
  \<open>weight\<close> (line 48) and does not define it, and line 88 compares the weights of two
  bounds on schema-equal prefixes, so what it decides for two kinds of one polarity
  depends on the body of \<open>weight\<close>. \<open>weight_ok\<close> collects what is known of that body: the
  polarity of each kind (start-like kinds weigh less than a bare prefix, which has weight
  0, end-like kinds more), and the separation the comment on \<open>range_tombstone::apply\<close>
  asks for (lines 226 to 228): the remainder starts where the truncated range tombstone
  ends, on the same prefix with the complement kind, and its start bound is larger than
  that end bound, so an end kind weighs less than its complement. The polarity values of
  the data model (\<open>weight\<close> above, one value per polarity) give the signs; the separation
  comes from that comment.
\<close>

definition compare_bounds_with ::
  "(bound_kind \<Rightarrow> int) \<Rightarrow> 'a schema \<Rightarrow> 'a bound_view \<Rightarrow> 'a bound_view \<Rightarrow> bool" where
  "compare_bounds_with w s b1 b2 =
     compare_prefix_weight s (prefix b1) (w (kind b1)) (prefix b2) (w (kind b2))"


text \<open>\<open>bound_view::equal\<close> and \<open>bound_view::adjacent\<close>, lines 102 to 107.\<close>

definition bound_equal :: "'a schema \<Rightarrow> 'a bound_view \<Rightarrow> 'a bound_view \<Rightarrow> bool" where
  "bound_equal s b other \<longleftrightarrow> kind b = kind other \<and> prefix_equal s (prefix b) (prefix other)"

definition adjacent :: "'a schema \<Rightarrow> 'a bound_view \<Rightarrow> 'a bound_view \<Rightarrow> bool" where
  "adjacent s b other \<longleftrightarrow>
     invert_kind (kind other) = kind b \<and> prefix_equal s (prefix b) (prefix other)"

section \<open>Range tombstones\<close>

text \<open>
  The data members of \<open>range_tombstone\<close>, lines 125 to 129. The member \<open>end\<close> is called
  \<open>end_prefix\<close> here, and \<open>start\<close> accordingly \<open>start_prefix\<close>. The intrusive set hook
  \<open>_link\<close> carries container membership only and is left out.
\<close>

record 'a range_tombstone =
  start_prefix :: "'a list"
  start_kind :: bound_kind
  end_prefix :: "'a list"
  end_kind :: bound_kind
  tomb :: tombstone

definition start_bound :: "'a range_tombstone \<Rightarrow> 'a bound_view" where
  "start_bound rt = \<lparr>prefix = start_prefix rt, kind = start_kind rt\<rparr>"

definition end_bound :: "'a range_tombstone \<Rightarrow> 'a bound_view" where
  "end_bound rt = \<lparr>prefix = end_prefix rt, kind = end_kind rt\<rparr>"

text \<open>\<open>range_tombstone::equal\<close>, lines 183 to 185.\<close>

definition range_tombstone_equal ::
  "'a schema \<Rightarrow> 'a range_tombstone \<Rightarrow> 'a range_tombstone \<Rightarrow> bool" where
  "range_tombstone_equal s rt other \<longleftrightarrow>
     tomb rt = tomb other \<and> bound_equal s (start_bound rt) (start_bound other)
     \<and> bound_equal s (end_bound rt) (end_bound other)"

text \<open>
  \<open>range_tombstone::flip\<close>, lines 235 to 240: the two swaps, then the two kinds are
  replaced by their direction flips.
\<close>

definition flip :: "'a range_tombstone \<Rightarrow> 'a range_tombstone" where
  "flip rt =
     (let swapped = rt\<lparr>start_prefix := end_prefix rt, end_prefix := start_prefix rt,
                       start_kind := end_kind rt, end_kind := start_kind rt\<rparr>
      in swapped\<lparr>start_kind := flip_bound_kind (start_kind swapped),
                 end_kind := flip_bound_kind (end_kind swapped)\<rparr>)"

text \<open>
  \<open>range_tombstone::is_single_clustering_row_tombstone\<close>, lines 216 to 221.
\<close>

definition is_single_clustering_row_tombstone ::
  "'a schema \<Rightarrow> 'a list \<Rightarrow> bound_kind \<Rightarrow> 'a list \<Rightarrow> bound_kind \<Rightarrow> bool" where
  "is_single_clustering_row_tombstone s start startkind endp endkind \<longleftrightarrow>
     is_full s start \<and> startkind = incl_start \<and> endkind = incl_end \<and> prefix_equal s start endp"

text \<open>
  \<open>range_tombstone::feed_hash\<close>, lines 193 to 204. The hasher and the \<open>feed_hash\<close>
  functions of prefixes, kinds and tombstones come from \<open>hashing.hh\<close>, \<open>keys.hh\<close> and
  \<open>tombstone.hh\<close>; a hasher is represented by the sequence of values fed to it so far, and
  feeding a value appends it.
\<close>

datatype 'a hash_input =
  Hash_prefix "'a list"
| Hash_kind bound_kind
| Hash_tombstone tombstone

definition feed_hash ::
  "'a hash_input list \<Rightarrow> 'a schema \<Rightarrow> 'a range_tombstone \<Rightarrow> 'a hash_input list" where
  "feed_hash h s rt =
     (let h1 = h @ [Hash_prefix (start_prefix rt)];
          h2 = (if \<not> prefix_equal s (start_prefix rt) (end_prefix rt)
                   \<or> start_kind rt \<noteq> incl_start \<or> end_kind rt \<noteq> incl_end
                then h1 @ [Hash_kind (start_kind rt)] @ [Hash_prefix (end_prefix rt)]
                        @ [Hash_kind (end_kind rt)]
                else h1)
      in h2 @ [Hash_tombstone (tomb rt)])"

text \<open>
  Modelled from the spec: \<open>range_tombstone::apply\<close> is declared at line 229 and defined
  outside \<open>range_tombstone.hh\<close>. The spec's merge algorithm: the winner is the tombstone
  with strictly higher deletion priority (tombstones compare by deletion timestamp; on
  equal timestamps the tombstone of \<open>this\<close> stays); \<open>shared_end\<close> is the minimum of the two
  end bounds under the bound order; \<open>this\<close> takes the winner and is truncated to
  \<open>shared_end\<close>; if the loser's end bound lies strictly beyond \<open>shared_end\<close>, the remainder
  starts at \<open>shared_end\<close> with the complementary kind, ends at the loser's end bound and
  carries the loser's tombstone. The result is the updated \<open>this\<close> and the optional
  remainder.
\<close>

definition range_tombstone_apply ::
  "'a schema \<Rightarrow> 'a range_tombstone \<Rightarrow> 'a range_tombstone
   \<Rightarrow> 'a range_tombstone \<times> 'a range_tombstone option" where
  "range_tombstone_apply s this src =
     (let src_wins = timestamp (tomb this) < timestamp (tomb src);
          winner = (if src_wins then tomb src else tomb this);
          loser = (if src_wins then this else src);
          shared_end = (if compare_bounds s (end_bound src) (end_bound this)
                        then end_bound src else end_bound this);
          this' = this\<lparr>end_prefix := prefix shared_end, end_kind := kind shared_end,
                        tomb := winner\<rparr>;
          remainder =
            (if compare_bounds s shared_end (end_bound loser)
             then Some \<lparr>start_prefix = prefix shared_end,
                        start_kind = invert_kind (kind shared_end),
                        end_prefix = end_prefix loser, end_kind = end_kind loser,
                        tomb = tomb loser\<rparr>
             else None)
      in (this', remainder))"

section \<open>The range tombstone accumulator\<close>

text \<open>
  Modelled from the spec: the priority order of tombstones comes from \<open>tombstone.hh\<close>.
  The spec: tombstones compare by deletion timestamp and the higher priority shadows the
  lower; on equal timestamps the existing tombstone stays.
\<close>

definition max_priority :: "tombstone \<Rightarrow> tombstone \<Rightarrow> tombstone" where
  "max_priority t u = (if timestamp t < timestamp u then u else t)"

text \<open>
  The data members of \<open>range_tombstone_accumulator\<close>, lines 271 to 275. The comparator
  \<open>_cmp\<close> is represented by the schema it wraps.
\<close>

record 'a range_tombstone_accumulator =
  cmp_schema :: "'a schema"
  partition_tombstone :: tombstone
  range_tombstones :: "'a range_tombstone list"
  current_tombstone :: tombstone
  reversed :: bool

text \<open>
  The constructor, lines 280 and 281, sets the comparator and the direction; the two
  tombstones are default-constructed. The default tombstone is defined in \<open>tombstone.hh\<close>
  and is taken as the parameter \<open>fresh\<close>.
\<close>

definition range_tombstone_accumulator_init ::
  "'a schema \<Rightarrow> bool \<Rightarrow> tombstone \<Rightarrow> 'a range_tombstone_accumulator" where
  "range_tombstone_accumulator_init s rv fresh =
     \<lparr>cmp_schema = s, partition_tombstone = fresh, range_tombstones = [],
      current_tombstone = fresh, reversed = rv\<rparr>"

text \<open>
  Modelled from the spec: \<open>update_current_tombstone\<close> is declared at line 277 and defined
  outside \<open>range_tombstone.hh\<close>. The spec, for \<open>set_partition_tombstone\<close>: the current
  tombstone is recomputed, the partition tombstone taking part in the maximum alongside
  any buffered range tombstone.
\<close>

definition update_current_tombstone ::
  "'a range_tombstone_accumulator \<Rightarrow> 'a range_tombstone_accumulator" where
  "update_current_tombstone acc =
     acc\<lparr>current_tombstone :=
           foldl max_priority (partition_tombstone acc) (map tomb (range_tombstones acc))\<rparr>"

text \<open>\<open>set_partition_tombstone\<close> and \<open>get_partition_tombstone\<close>, lines 283 to 290.\<close>

definition set_partition_tombstone ::
  "'a range_tombstone_accumulator \<Rightarrow> tombstone \<Rightarrow> 'a range_tombstone_accumulator" where
  "set_partition_tombstone acc t = update_current_tombstone (acc\<lparr>partition_tombstone := t\<rparr>)"

definition get_partition_tombstone :: "'a range_tombstone_accumulator \<Rightarrow> tombstone" where
  "get_partition_tombstone acc = partition_tombstone acc"

text \<open>
  Modelled from the spec: the order in which an accumulator compares positions. The spec:
  positions are compared by the schema-aware order, by the reversed order if \<open>reversed\<close>
  is set. The reversed order compares every clustering column the other way round and
  leaves the weights alone: it is the order in which a reversed scan meets the rows, and
  the one in which a flipped range tombstone (\<open>flip\<close>, lines 233 to 240) has its start
  bound first.
\<close>

definition reversed_schema :: "'a schema \<Rightarrow> 'a schema" where
  "reversed_schema s =
     s\<lparr>clustering_key_types := map (\<lambda>c x y. c y x) (clustering_key_types s)\<rparr>"

definition accumulator_schema :: "'a range_tombstone_accumulator \<Rightarrow> 'a schema" where
  "accumulator_schema acc =
     (if reversed acc then reversed_schema (cmp_schema acc) else cmp_schema acc)"

text \<open>
  Modelled from the spec: \<open>drop_unneeded_tombstones\<close> is declared at line 278 and defined
  outside \<open>range_tombstone.hh\<close>. The spec, for \<open>tombstone_for_row\<close>: every buffered entry
  whose end bound is strictly before the position is pruned; the current tombstone is
  recomputed as the maximum-priority tombstone among the partition tombstone and the
  tombstone of the buffered entry whose range still covers the position. The position is
  the prefix with the weight \<open>w\<close> of the declaration (0 by default); the comparisons are
  those of the accumulator's order.
\<close>

definition drop_unneeded_tombstones ::
  "'a range_tombstone_accumulator \<Rightarrow> 'a list \<Rightarrow> int \<Rightarrow> 'a range_tombstone_accumulator" where
  "drop_unneeded_tombstones acc ck w =
     (let s = accumulator_schema acc;
          kept = filter (\<lambda>rt. \<not> compare_prefix_weight s (end_prefix rt) (weight (end_kind rt)) ck w)
                   (range_tombstones acc);
          covering =
            filter (\<lambda>rt. compare_prefix_weight s (start_prefix rt) (weight (start_kind rt)) ck w
                        \<and> compare_prefix_weight s ck w (end_prefix rt) (weight (end_kind rt)))
              kept
      in acc\<lparr>range_tombstones := kept,
             current_tombstone :=
               foldl max_priority (partition_tombstone acc) (map tomb covering)\<rparr>)"

text \<open>
  \<open>tombstone_for_row\<close>, lines 292 to 295: the result is the returned tombstone and the
  updated accumulator.
\<close>

definition tombstone_for_row ::
  "'a range_tombstone_accumulator \<Rightarrow> 'a list \<Rightarrow> tombstone \<times> 'a range_tombstone_accumulator" where
  "tombstone_for_row acc ck =
     (let acc' = drop_unneeded_tombstones acc ck 0 in (current_tombstone acc', acc'))"

text \<open>
  Modelled from the spec: \<open>range_tombstone_accumulator::apply\<close> is declared at line 297
  and defined outside \<open>range_tombstone.hh\<close>. The spec: the new range tombstone is inserted
  into the buffered sequence; overlap with a buffered entry is resolved by splitting at
  the later of two mismatched starts and merging the same-start pair with
  \<open>range_tombstone::apply\<close>, which yields further disjoint fragments; the current tombstone
  is left alone. All comparisons are those of the accumulator's order.

  \<^item> \<open>split_before\<close> and \<open>split_from\<close> cut a range tombstone at a start bound: the first
    piece ends at the complement of that bound, the second starts at it.
  \<^item> \<open>insert_fragment\<close> walks the buffered sequence in order: an entry that ends before
    the fragment starts is kept; if the fragment ends before the entry starts, the
    fragment is put in front; otherwise the one that starts earlier is split at the
    later start, the same-start pair is merged with \<open>range_tombstone::apply\<close>, the
    buffered piece being \<open>this\<close>, and the remainder it returns, if any, is inserted into
    the rest of the sequence.
\<close>

definition split_before :: "'a range_tombstone \<Rightarrow> 'a bound_view \<Rightarrow> 'a range_tombstone" where
  "split_before rt b = rt\<lparr>end_prefix := prefix b, end_kind := invert_kind (kind b)\<rparr>"

definition split_from :: "'a range_tombstone \<Rightarrow> 'a bound_view \<Rightarrow> 'a range_tombstone" where
  "split_from rt b = rt\<lparr>start_prefix := prefix b, start_kind := kind b\<rparr>"

fun insert_fragment ::
  "'a schema \<Rightarrow> 'a range_tombstone \<Rightarrow> 'a range_tombstone list \<Rightarrow> 'a range_tombstone list" where
  "insert_fragment s f [] = [f]"
| "insert_fragment s f (x # xs) =
     (if \<not> compare_bounds s (start_bound f) (end_bound x) then x # insert_fragment s f xs
      else if \<not> compare_bounds s (start_bound x) (end_bound f) then f # x # xs
      else
        (case (if compare_bounds s (start_bound x) (start_bound f)
               then ([split_before x (start_bound f)], split_from x (start_bound f), f)
               else if compare_bounds s (start_bound f) (start_bound x)
               then ([split_before f (start_bound x)], x, split_from f (start_bound x))
               else ([], x, f)) of
           (heads, x2, f2) \<Rightarrow>
             (case range_tombstone_apply s x2 f2 of
                (x', None) \<Rightarrow> heads @ x' # xs
              | (x', Some remainder) \<Rightarrow> heads @ x' # insert_fragment s remainder xs)))"

declare insert_fragment.simps(2) [simp del]

definition accumulator_apply ::
  "'a range_tombstone_accumulator \<Rightarrow> 'a range_tombstone \<Rightarrow> 'a range_tombstone_accumulator" where
  "accumulator_apply acc rt =
     acc\<lparr>range_tombstones := insert_fragment (accumulator_schema acc) rt (range_tombstones acc)\<rparr>"

text \<open>
  Modelled from the spec: \<open>clear\<close> is declared at line 299 and defined outside
  \<open>range_tombstone.hh\<close>. The spec: the buffered sequence becomes empty and the current
  tombstone a fresh default.
\<close>

definition clear ::
  "tombstone \<Rightarrow> 'a range_tombstone_accumulator \<Rightarrow> 'a range_tombstone_accumulator" where
  "clear fresh acc = acc\<lparr>range_tombstones := [], current_tombstone := fresh\<rparr>"

text \<open>The public operations as calls, and a sequence of calls as a left fold.\<close>

datatype 'a accumulator_call =
  Set_partition_tombstone tombstone
| Get_partition_tombstone
| Tombstone_for_row "'a list"
| Apply "'a range_tombstone"
| Clear

fun call ::
  "tombstone \<Rightarrow> 'a range_tombstone_accumulator \<Rightarrow> 'a accumulator_call
   \<Rightarrow> 'a range_tombstone_accumulator" where
  "call fresh acc (Set_partition_tombstone t) = set_partition_tombstone acc t"
| "call fresh acc Get_partition_tombstone = acc"
| "call fresh acc (Tombstone_for_row ck) = snd (tombstone_for_row acc ck)"
| "call fresh acc (Apply rt) = accumulator_apply acc rt"
| "call fresh acc Clear = clear fresh acc"

section \<open>Notions used to state the properties\<close>

text \<open>
  A column's three-way comparison is well-formed when it is the comparison of a total
  preorder: antisymmetric in sign, transitive on "less" and on "equal". A schema is
  well-formed when each clustering column is.
\<close>

definition tri_ok :: "('a \<Rightarrow> 'a \<Rightarrow> int) \<Rightarrow> bool" where
  "tri_ok c \<longleftrightarrow>
     (\<forall>x y. (c x y < 0) = (0 < c y x)) \<and>
     (\<forall>x y z. c x y < 0 \<longrightarrow> c y z < 0 \<longrightarrow> c x z < 0) \<and>
     (\<forall>x y z. c x y = 0 \<longrightarrow> c y z = 0 \<longrightarrow> c x z = 0)"

definition schema_ok :: "'a schema \<Rightarrow> bool" where
  "schema_ok s \<longleftrightarrow> (\<forall>c \<in> set (clustering_key_types s). tri_ok c)"

text \<open>The comparator of lines 76 to 91 as a function of the column types alone.\<close>

definition cmp_on ::
  "('a \<Rightarrow> 'a \<Rightarrow> int) list \<Rightarrow> 'a list \<Rightarrow> int \<Rightarrow> 'a list \<Rightarrow> int \<Rightarrow> bool" where
  "cmp_on ts p1 w1 p2 w2 =
     (let res = prefix_equality_tri_compare ts p1 p2 in
      if res \<noteq> 0 then res < 0
      else
        let d1 = length p1; d2 = length p2 in
        if d1 = d2 then w1 < w2
        else if d1 < d2 then w1 \<le> 0 else w2 > 0)"

text \<open>
  A range tombstone covers a clustering position when its start bound sorts before the
  position and the position sorts before its end bound, both under the comparator's
  overloads for a bare prefix (weight 0).
\<close>

definition covers :: "'a schema \<Rightarrow> 'a range_tombstone \<Rightarrow> 'a list \<Rightarrow> bool" where
  "covers s rt ck \<longleftrightarrow>
     compare_bound_prefix s (start_bound rt) ck \<and> compare_prefix_bound s ck (end_bound rt)"



text \<open>
  Positions for the proofs: a prefix with a weight; a bound stands at its prefix with the
  weight of its kind, a row at its key with weight 0.
\<close>

type_synonym 'a point = "'a list \<times> int"

definition before :: "'a schema \<Rightarrow> 'a point \<Rightarrow> 'a point \<Rightarrow> bool" where
  "before s a b = compare_prefix_weight s (fst a) (snd a) (fst b) (snd b)"

definition bound_point :: "'a bound_view \<Rightarrow> 'a point" where
  "bound_point b = (prefix b, weight (kind b))"

definition start_point :: "'a range_tombstone \<Rightarrow> 'a point" where
  "start_point x = bound_point (start_bound x)"

definition end_point :: "'a range_tombstone \<Rightarrow> 'a point" where
  "end_point x = bound_point (end_bound x)"

definition row_point :: "'a list \<Rightarrow> 'a point" where
  "row_point ck = (ck, 0)"

text \<open>
  An example schema for concrete instances: two clustering columns of integers under
  their usual order.
\<close>

definition int_tri_compare :: "int \<Rightarrow> int \<Rightarrow> int" where
  "int_tri_compare x y = (if x < y then - 1 else if x = y then 0 else 1)"

definition int_schema :: "int schema" where
  "int_schema = \<lparr>clustering_key_types = [int_tri_compare, int_tri_compare]\<rparr>"

text \<open>
  Example data: a partition tombstone, two overlapping range tombstones over the first
  clustering column, the later one stronger and longer, and a default tombstone.
\<close>

definition example_rt1 :: "int range_tombstone" where
  "example_rt1 = \<lparr>start_prefix = [1], start_kind = incl_start, end_prefix = [3],
     end_kind = incl_end, tomb = \<lparr>timestamp = 10, deletion_time = 0\<rparr>\<rparr>"

definition example_rt2 :: "int range_tombstone" where
  "example_rt2 = \<lparr>start_prefix = [2], start_kind = incl_start, end_prefix = [4],
     end_kind = incl_end, tomb = \<lparr>timestamp = 20, deletion_time = 0\<rparr>\<rparr>"

definition example_partition_tombstone :: tombstone where
  "example_partition_tombstone = \<lparr>timestamp = 5, deletion_time = 0\<rparr>"

definition example_fresh :: tombstone where
  "example_fresh = \<lparr>timestamp = 0, deletion_time = 0\<rparr>"


section \<open>Well-formed column comparisons\<close>

lemma compare_prefix_weight_cmp_on:
  "compare_prefix_weight s p1 w1 p2 w2 = cmp_on (clustering_key_types s) p1 w1 p2 w2"
  by (simp add: compare_prefix_weight_def cmp_on_def)

lemma tri_ok_anti: "tri_ok c \<Longrightarrow> (c x y < 0) = (0 < c y x)"
  by (simp add: tri_ok_def)

lemma tri_ok_trans: "tri_ok c \<Longrightarrow> c x y < 0 \<Longrightarrow> c y z < 0 \<Longrightarrow> c x z < 0"
  unfolding tri_ok_def by blast

lemma tri_ok_trans0: "tri_ok c \<Longrightarrow> c x y = 0 \<Longrightarrow> c y z = 0 \<Longrightarrow> c x z = 0"
  unfolding tri_ok_def by blast

lemma tri_ok_refl: "tri_ok c \<Longrightarrow> c x x = 0"
  using tri_ok_anti [of c x x] by linarith

lemma tri_ok_sym0: 
  assumes "tri_ok c" "c x y = 0" shows "c y x = 0"
  using tri_ok_anti [OF assms(1), of x y] tri_ok_anti [OF assms(1), of y x] assms(2) by linarith

lemma tri_ok_eq_lt: 
  assumes ok: "tri_ok c" and e: "c x y = 0" and l: "c y z < 0" shows "c x z < 0"
proof (rule ccontr)
  assume n: "\<not> c x z < 0"
  show False
  proof (cases "c x z = 0")
    case True
    have "c y x = 0" using tri_ok_sym0 [OF ok e] .
    then have "c y z = 0" using tri_ok_trans0 [OF ok _ True] by simp
    with l show False by simp
  next
    case False
    with n have "0 < c x z" by simp
    then have "c z x < 0" using tri_ok_anti [OF ok, of z x] by simp
    with l have "c y x < 0" using tri_ok_trans [OF ok] by blast
    moreover have "c y x = 0" using tri_ok_sym0 [OF ok e] .
    ultimately show False by simp
  qed
qed

lemma tri_ok_lt_eq: 
  assumes ok: "tri_ok c" and l: "c x y < 0" and e: "c y z = 0" shows "c x z < 0"
proof (rule ccontr)
  assume n: "\<not> c x z < 0"
  show False
  proof (cases "c x z = 0")
    case True
    have "c z y = 0" using tri_ok_sym0 [OF ok e] .
    then have "c x y = 0" using tri_ok_trans0 [OF ok True] by simp
    with l show False by simp
  next
    case False
    with n have "0 < c x z" by simp
    then have "c z x < 0" using tri_ok_anti [OF ok, of z x] by simp
    with l have "c z y < 0" using tri_ok_trans [OF ok] by blast
    moreover have "c z y = 0" using tri_ok_sym0 [OF ok e] .
    ultimately show False by simp
  qed
qed

lemma cmp_on_Nil_Nil [simp]: "cmp_on ts [] w1 [] w2 = (w1 < w2)"
  by (cases ts) (simp_all add: cmp_on_def)

lemma cmp_on_Nil_Cons [simp]: "cmp_on ts [] w1 (y # ys) w2 = (w1 \<le> 0)"
  by (cases ts) (simp_all add: cmp_on_def)

lemma cmp_on_Cons_Nil [simp]: "cmp_on ts (x # xs) w1 [] w2 = (0 < w2)"
  by (cases ts) (simp_all add: cmp_on_def)

lemma cmp_on_Cons_Cons [simp]:
  "cmp_on (t # ts) (x # xs) w1 (y # ys) w2 =
     (if t x y \<noteq> 0 then t x y < 0 else cmp_on ts xs w1 ys w2)"
  by (simp add: cmp_on_def Let_def)

lemma cmp_on_no_types: "cmp_on [] p1 w1 p2 w2 =
  (if length p1 = length p2 then w1 < w2 else if length p1 < length p2 then w1 \<le> 0 else 0 < w2)"
  by (simp add: cmp_on_def)

lemma cmp_on_irrefl: "\<forall>c\<in>set ts. tri_ok c \<Longrightarrow> \<not> cmp_on ts p w p w"
proof (induction ts arbitrary: p)
  case Nil
  show ?case by (simp add: cmp_on_no_types)
next
  case (Cons t ts)
  then show ?case by (cases p) (simp_all add: tri_ok_refl)
qed

lemma cmp_on_trans:
  "\<forall>c\<in>set ts. tri_ok c \<Longrightarrow> cmp_on ts p1 w1 p2 w2 \<Longrightarrow> cmp_on ts p2 w2 p3 w3
   \<Longrightarrow> cmp_on ts p1 w1 p3 w3"
proof (induction ts arbitrary: p1 p2 p3)
  case Nil
  then show ?case by (simp add: cmp_on_no_types split: if_splits)
next
  case (Cons t ts)
  have ok: "tri_ok t" and oks: "\<forall>c\<in>set ts. tri_ok c" using Cons.prems(1) by simp_all
  show ?case
  proof (cases p1)
    case n1: Nil
    show ?thesis
    proof (cases p2)
      case n2: Nil
      with n1 Cons.prems show ?thesis by (cases p3) simp_all
    next
      case c2: (Cons y ys)
      with n1 Cons.prems show ?thesis by (cases p3) simp_all
    qed
  next
    case c1: (Cons x xs)
    show ?thesis
    proof (cases p2)
      case n2: Nil
      with c1 Cons.prems show ?thesis by (cases p3) simp_all
    next
      case c2: (Cons y ys)
      show ?thesis
      proof (cases p3)
        case n3: Nil
        with c1 c2 Cons.prems show ?thesis by simp
      next
        case c3: (Cons z zs)
        show ?thesis
        proof (cases "t x y = 0")
          case xy: True
          show ?thesis
          proof (cases "t y z = 0")
            case yz: True
            have "t x z = 0" using tri_ok_trans0 [OF ok xy yz] .
            moreover have "cmp_on ts xs w1 zs w3"
              using Cons.IH [OF oks, of xs ys zs] Cons.prems(2,3) c1 c2 c3 xy yz by simp
            ultimately show ?thesis using c1 c3 by simp
          next
            case yz: False
            then have "t y z < 0" using Cons.prems(3) c2 c3 by simp
            then have "t x z < 0" using tri_ok_eq_lt [OF ok xy] by blast
            then show ?thesis using c1 c3 by simp
          qed
        next
          case xy: False
          then have lxy: "t x y < 0" using Cons.prems(2) c1 c2 by simp
          show ?thesis
          proof (cases "t y z = 0")
            case yz: True
            have "t x z < 0" using tri_ok_lt_eq [OF ok lxy yz] .
            then show ?thesis using c1 c3 by simp
          next
            case yz: False
            then have "t y z < 0" using Cons.prems(3) c2 c3 by simp
            then have "t x z < 0" using tri_ok_trans [OF ok lxy] by blast
            then show ?thesis using c1 c3 by simp
          qed
        qed
      qed
    qed
  qed
qed

lemma cmp_on_equiv:
  "\<forall>c\<in>set ts. tri_ok c \<Longrightarrow>
   (\<not> cmp_on ts p1 w1 p2 w2 \<and> \<not> cmp_on ts p2 w2 p1 w1) =
   (length p1 = length p2 \<and> prefix_equality_tri_compare ts p1 p2 = 0 \<and> w1 = w2)"
proof (induction ts arbitrary: p1 p2)
  case Nil
  show ?case by (auto simp: cmp_on_no_types)
next
  case (Cons t ts)
  have ok: "tri_ok t" and oks: "\<forall>c\<in>set ts. tri_ok c" using Cons.prems(1) by simp_all
  show ?case
  proof (cases p1)
    case n1: Nil
    then show ?thesis by (cases p2) auto
  next
    case c1: (Cons x xs)
    show ?thesis
    proof (cases p2)
      case Nil
      with c1 show ?thesis by auto
    next
      case c2: (Cons y ys)
      show ?thesis
      proof (cases "t x y = 0")
        case True
        then have "t y x = 0" using tri_ok_sym0 [OF ok] by blast
        with True c1 c2 Cons.IH [OF oks, of xs ys] show ?thesis by simp
      next
        case False
        then have "t x y < 0 \<or> t y x < 0" using tri_ok_anti [OF ok, of y x] by linarith
        moreover have "t y x \<noteq> 0" using False tri_ok_sym0 [OF ok, of y x] by blast
        ultimately show ?thesis using False c1 c2 by auto
      qed
    qed
  qed
qed

lemma petc_trans0:
  "\<forall>c\<in>set ts. tri_ok c \<Longrightarrow> length p1 = length p2 \<Longrightarrow>
   prefix_equality_tri_compare ts p1 p2 = 0 \<Longrightarrow> prefix_equality_tri_compare ts p2 p3 = 0
   \<Longrightarrow> prefix_equality_tri_compare ts p1 p3 = 0"
proof (induction ts p1 p3 arbitrary: p2 rule: prefix_equality_tri_compare.induct)
  case (1 t ts x xs z zs)
  from "1.prems"(2) obtain y ys where p2: "p2 = y # ys" by (cases p2) auto
  have ok: "tri_ok t" and oks: "\<forall>c\<in>set ts. tri_ok c" using "1.prems"(1) by simp_all
  have xy: "t x y = 0" and r1: "prefix_equality_tri_compare ts xs ys = 0"
    using "1.prems"(3) p2 by (simp_all add: Let_def split: if_splits)
  have yz: "t y z = 0" and r2: "prefix_equality_tri_compare ts ys zs = 0"
    using "1.prems"(4) p2 by (simp_all add: Let_def split: if_splits)
  have xz: "t x z = 0" using tri_ok_trans0 [OF ok xy yz] .
  have "prefix_equality_tri_compare ts xs zs = 0"
    using "1.IH" [of "t x z" ys] xz oks r1 r2 "1.prems"(2) p2 by simp
  with xz show ?case by simp
qed simp_all

section \<open>Schema equality of prefixes and order lemmas\<close>

lemma petc_refl: "\<forall>c\<in>set ts. tri_ok c \<Longrightarrow> prefix_equality_tri_compare ts p p = 0"
proof (induction ts arbitrary: p)
  case Nil
  show ?case by simp
next
  case (Cons t ts)
  then show ?case by (cases p) (simp_all add: tri_ok_refl)
qed

lemma petc_sym0:
  "\<forall>c\<in>set ts. tri_ok c \<Longrightarrow> prefix_equality_tri_compare ts p q = 0
   \<Longrightarrow> prefix_equality_tri_compare ts q p = 0"
proof (induction ts p q rule: prefix_equality_tri_compare.induct)
  case (1 t ts x xs y ys)
  have xy: "t x y = 0" and r: "prefix_equality_tri_compare ts xs ys = 0"
    using "1.prems"(2) by (simp_all add: Let_def split: if_splits)
  have "t y x = 0" using tri_ok_sym0 [of t x y] "1.prems"(1) xy by simp
  moreover have "prefix_equality_tri_compare ts ys xs = 0"
    using "1.IH" [of "t x y"] xy r "1.prems"(1) by simp
  ultimately show ?case by simp
qed simp_all

lemma petc_append: 
  "\<forall>c\<in>set ts. tri_ok c \<Longrightarrow> prefix_equality_tri_compare ts p (p @ q) = 0"
proof (induction ts arbitrary: p)
  case Nil
  show ?case by simp
next
  case (Cons t ts)
  then show ?case by (cases p) (simp_all add: tri_ok_refl)
qed

lemma petc_append2: 
  "\<forall>c\<in>set ts. tri_ok c \<Longrightarrow> prefix_equality_tri_compare ts (p @ q) p = 0"
  using petc_append petc_sym0 by blast

lemma prefix_equal_refl: "schema_ok s \<Longrightarrow> prefix_equal s p p"
  by (simp add: prefix_equal_def schema_ok_def petc_refl)

lemma prefix_equal_sym: "schema_ok s \<Longrightarrow> prefix_equal s p q \<Longrightarrow> prefix_equal s q p"
  by (simp add: prefix_equal_def schema_ok_def petc_sym0)

lemma prefix_equal_trans:
  "schema_ok s \<Longrightarrow> prefix_equal s p q \<Longrightarrow> prefix_equal s q r \<Longrightarrow> prefix_equal s p r"
  using petc_trans0 [of "clustering_key_types s" p q r]
  by (simp add: prefix_equal_def schema_ok_def)

lemma compare_irrefl: "schema_ok s \<Longrightarrow> \<not> compare_prefix_weight s p w p w"
  by (simp add: compare_prefix_weight_cmp_on schema_ok_def cmp_on_irrefl)

lemma compare_trans:
  "schema_ok s \<Longrightarrow> compare_prefix_weight s p1 w1 p2 w2 \<Longrightarrow> compare_prefix_weight s p2 w2 p3 w3
   \<Longrightarrow> compare_prefix_weight s p1 w1 p3 w3"
  unfolding compare_prefix_weight_cmp_on schema_ok_def by (rule cmp_on_trans)

lemma compare_equiv:
  "schema_ok s \<Longrightarrow>
   (\<not> compare_prefix_weight s p1 w1 p2 w2 \<and> \<not> compare_prefix_weight s p2 w2 p1 w1) =
   (prefix_equal s p1 p2 \<and> w1 = w2)"
  unfolding compare_prefix_weight_cmp_on schema_ok_def prefix_equal_def
  using cmp_on_equiv [of "clustering_key_types s" p1 w1 p2 w2] by blast

lemma compare_equiv_trans:
  assumes ok: "schema_ok s"
    and a: "\<not> compare_prefix_weight s p1 w1 p2 w2" "\<not> compare_prefix_weight s p2 w2 p1 w1"
    and b: "\<not> compare_prefix_weight s p2 w2 p3 w3" "\<not> compare_prefix_weight s p3 w3 p2 w2"
  shows "\<not> compare_prefix_weight s p1 w1 p3 w3 \<and> \<not> compare_prefix_weight s p3 w3 p1 w1"
proof -
  have "prefix_equal s p1 p2 \<and> w1 = w2" using compare_equiv [OF ok, of p1 w1 p2 w2] a by blast
  moreover have "prefix_equal s p2 p3 \<and> w2 = w3"
    using compare_equiv [OF ok, of p2 w2 p3 w3] b by blast
  ultimately have "prefix_equal s p1 p3 \<and> w1 = w3" using prefix_equal_trans [OF ok] by blast
  then show ?thesis using compare_equiv [OF ok, of p1 w1 p3 w3] by blast
qed

lemma int_tri_compare_ok: "tri_ok int_tri_compare"
  by (auto simp: tri_ok_def int_tri_compare_def)

lemma int_schema_ok: "schema_ok int_schema"
  by (simp add: schema_ok_def int_schema_def int_tri_compare_ok)

lemma compare_extension_after:
  "schema_ok s \<Longrightarrow> compare_prefix_weight s p w1 (p @ x # q) w2 = (w1 \<le> 0)"
  by (simp add: compare_prefix_weight_def schema_ok_def petc_append)

lemma compare_extension_before:
  "schema_ok s \<Longrightarrow> compare_prefix_weight s (p @ x # q) w1 p w2 = (0 < w2)"
  by (simp add: compare_prefix_weight_def schema_ok_def petc_append2)

lemma compare_prefix_equal:
  "prefix_equal s p q \<Longrightarrow> compare_prefix_weight s p w1 q w2 = (w1 < w2)"
  by (simp add: compare_prefix_weight_def prefix_equal_def)


section \<open>The bound comparator\<close>

text \<open>
  Claim C4. For a well-formed schema, the comparator on (prefix, weight) pairs is a strict
  weak order: it is irreflexive and transitive, incomparability is transitive, and two
  bounds that are equal under \<open>bound_view::equal\<close> are order-equivalent.
\<close>

theorem compare_strict_weak_order:
  assumes "schema_ok s"
  shows "(\<forall>p w. \<not> compare_prefix_weight s p w p w)
    \<and> (\<forall>p1 w1 p2 w2 p3 w3.
          compare_prefix_weight s p1 w1 p2 w2 \<longrightarrow> compare_prefix_weight s p2 w2 p3 w3
          \<longrightarrow> compare_prefix_weight s p1 w1 p3 w3)
    \<and> (\<forall>p1 w1 p2 w2 p3 w3.
          \<not> compare_prefix_weight s p1 w1 p2 w2 \<and> \<not> compare_prefix_weight s p2 w2 p1 w1
          \<longrightarrow> \<not> compare_prefix_weight s p2 w2 p3 w3 \<and> \<not> compare_prefix_weight s p3 w3 p2 w2
          \<longrightarrow> \<not> compare_prefix_weight s p1 w1 p3 w3 \<and> \<not> compare_prefix_weight s p3 w3 p1 w1)
    \<and> (\<forall>b1 b2. bound_equal s b1 b2
          \<longrightarrow> \<not> compare_bounds s b1 b2 \<and> \<not> compare_bounds s b2 b1)"
proof (intro conjI allI impI)
  fix p w show "\<not> compare_prefix_weight s p w p w" using compare_irrefl [OF assms] .
next
  fix p1 w1 p2 w2 p3 w3
  assume "compare_prefix_weight s p1 w1 p2 w2" "compare_prefix_weight s p2 w2 p3 w3"
  then show "compare_prefix_weight s p1 w1 p3 w3" using compare_trans [OF assms] by blast
next
  fix p1 w1 p2 w2 p3 w3
  assume a: "\<not> compare_prefix_weight s p1 w1 p2 w2 \<and> \<not> compare_prefix_weight s p2 w2 p1 w1"
    and b: "\<not> compare_prefix_weight s p2 w2 p3 w3 \<and> \<not> compare_prefix_weight s p3 w3 p2 w2"
  show "\<not> compare_prefix_weight s p1 w1 p3 w3" "\<not> compare_prefix_weight s p3 w3 p1 w1"
    using compare_equiv_trans [OF assms, of p1 w1 p2 w2 p3 w3] a b by blast+
next
  fix b1 b2 :: "'a bound_view"
  assume e: "bound_equal s b1 b2"
  then have "prefix_equal s (prefix b1) (prefix b2) \<and> weight (kind b1) = weight (kind b2)"
    by (simp add: bound_equal_def)
  then show "\<not> compare_bounds s b1 b2" "\<not> compare_bounds s b2 b1"
    using compare_equiv [OF assms, of "prefix b1" "weight (kind b1)" "prefix b2" "weight (kind b2)"]
    by (simp_all add: compare_bounds_def)
qed

theorem compare_strict_weak_order_witness:
  "schema_ok int_schema
   \<and> \<not> compare_prefix_weight int_schema [1] 0 [1] 0
   \<and> compare_prefix_weight int_schema [1] (- 1) [1, 2] 0
   \<and> compare_prefix_weight int_schema [1, 2] 0 [1] 1
   \<and> compare_prefix_weight int_schema [1] (- 1) [1] 1
   \<and> bound_equal int_schema \<lparr>prefix = [1, 2], kind = incl_end\<rparr> \<lparr>prefix = [1, 2], kind = incl_end\<rparr>
   \<and> \<not> compare_bounds int_schema \<lparr>prefix = [1, 2], kind = incl_end\<rparr>
         \<lparr>prefix = [1, 2], kind = incl_end\<rparr>"
proof -
  have a: "compare_prefix_weight int_schema [1] (- 1) [1, 2] 0"
    by (simp add: compare_prefix_weight_def int_schema_def int_tri_compare_def)
  have b: "compare_prefix_weight int_schema [1, 2] 0 [1] 1"
    by (simp add: compare_prefix_weight_def int_schema_def int_tri_compare_def)
  have e: "bound_equal int_schema \<lparr>prefix = [1, 2], kind = incl_end\<rparr>
             \<lparr>prefix = [1, 2], kind = incl_end\<rparr>"
    by (simp add: bound_equal_def prefix_equal_def int_schema_def int_tri_compare_def)
  show ?thesis
    using compare_strict_weak_order [OF int_schema_ok] a b e int_schema_ok by blast
qed

text \<open>
  Claim C5. For every prefix \<open>p\<close> and every one-component extension \<open>p @ [x]\<close>, the
  comparator orders the bound (\<open>p\<close>, \<open>incl_start\<close>) strictly before
  (\<open>p @ [x]\<close>, \<open>incl_start\<close>), and that one strictly before (\<open>p\<close>, \<open>incl_end\<close>): a shorter
  start-like bound sorts before any longer prefix extending it, and a shorter end-like
  bound sorts after it, whatever the kind of the longer bound.
\<close>

theorem tie_break_prefix_extension:
  assumes "schema_ok s"
  shows "compare_bounds s \<lparr>prefix = p, kind = incl_start\<rparr> \<lparr>prefix = p @ [x], kind = incl_start\<rparr>
    \<and> compare_bounds s \<lparr>prefix = p @ [x], kind = incl_start\<rparr> \<lparr>prefix = p, kind = incl_end\<rparr>
    \<and> \<not> compare_bounds s \<lparr>prefix = p @ [x], kind = incl_start\<rparr> \<lparr>prefix = p, kind = incl_start\<rparr>
    \<and> \<not> compare_bounds s \<lparr>prefix = p, kind = incl_end\<rparr> \<lparr>prefix = p @ [x], kind = incl_start\<rparr>
    \<and> (\<forall>k. compare_bounds s \<lparr>prefix = p, kind = incl_start\<rparr> \<lparr>prefix = p @ [x], kind = k\<rparr>
           \<and> compare_bounds s \<lparr>prefix = p, kind = excl_end\<rparr> \<lparr>prefix = p @ [x], kind = k\<rparr>
           \<and> compare_bounds s \<lparr>prefix = p @ [x], kind = k\<rparr> \<lparr>prefix = p, kind = incl_end\<rparr>
           \<and> compare_bounds s \<lparr>prefix = p @ [x], kind = k\<rparr> \<lparr>prefix = p, kind = excl_start\<rparr>)"
  using assms by (simp add: compare_bounds_def compare_extension_after compare_extension_before)

theorem tie_break_prefix_extension_witness:
  "schema_ok int_schema
   \<and> compare_bounds int_schema \<lparr>prefix = [1], kind = incl_start\<rparr> \<lparr>prefix = [1] @ [2], kind = incl_start\<rparr>
   \<and> compare_bounds int_schema \<lparr>prefix = [1] @ [2], kind = incl_start\<rparr> \<lparr>prefix = [1], kind = incl_end\<rparr>"
  using tie_break_prefix_extension [OF int_schema_ok, of "[1]" 2] int_schema_ok by blast

text \<open>
  Claim C10. The comparator places a bare prefix \<open>p\<close> (compared at weight 0) strictly after
  every start-like bound and strictly before every end-like bound that carries a
  schema-equal prefix of the same length: the bounds with \<open>incl_start\<close> and \<open>excl_end\<close>
  compare before \<open>p\<close>, and \<open>p\<close> compares before the bounds with \<open>incl_end\<close> and \<open>excl_start\<close>.
  So an inclusive start or end bound on \<open>p\<close> covers the row \<open>p\<close>, an exclusive one does not.
\<close>

theorem bare_prefix_between_bounds:
  assumes "schema_ok s" and "prefix_equal s q p"
  shows "compare_bound_prefix s \<lparr>prefix = q, kind = incl_start\<rparr> p
    \<and> compare_bound_prefix s \<lparr>prefix = q, kind = excl_end\<rparr> p
    \<and> compare_prefix_bound s p \<lparr>prefix = q, kind = incl_end\<rparr>
    \<and> compare_prefix_bound s p \<lparr>prefix = q, kind = excl_start\<rparr>
    \<and> \<not> compare_prefix_bound s p \<lparr>prefix = q, kind = incl_start\<rparr>
    \<and> \<not> compare_prefix_bound s p \<lparr>prefix = q, kind = excl_end\<rparr>
    \<and> \<not> compare_bound_prefix s \<lparr>prefix = q, kind = incl_end\<rparr> p
    \<and> \<not> compare_bound_prefix s \<lparr>prefix = q, kind = excl_start\<rparr> p
    \<and> compare_bound_prefix s \<lparr>prefix = p, kind = incl_start\<rparr> p
    \<and> compare_bound_prefix s \<lparr>prefix = p, kind = excl_end\<rparr> p
    \<and> compare_prefix_bound s p \<lparr>prefix = p, kind = incl_end\<rparr>
    \<and> compare_prefix_bound s p \<lparr>prefix = p, kind = excl_start\<rparr>"
  using assms prefix_equal_refl [OF assms(1), of p] prefix_equal_sym [OF assms]
  by (simp add: compare_bound_prefix_def compare_prefix_bound_def compare_prefix_equal)

theorem bare_prefix_between_bounds_witness:
  "schema_ok int_schema \<and> prefix_equal int_schema [1, 2] [1, 2]
   \<and> compare_bound_prefix int_schema \<lparr>prefix = [1, 2], kind = incl_start\<rparr> [1, 2]
   \<and> compare_bound_prefix int_schema \<lparr>prefix = [1, 2], kind = excl_end\<rparr> [1, 2]
   \<and> compare_prefix_bound int_schema [1, 2] \<lparr>prefix = [1, 2], kind = incl_end\<rparr>
   \<and> compare_prefix_bound int_schema [1, 2] \<lparr>prefix = [1, 2], kind = excl_start\<rparr>"
proof -
  have e: "prefix_equal int_schema [1, 2] [1, 2]"
    by (simp add: prefix_equal_def int_schema_def int_tri_compare_def)
  show ?thesis
    using bare_prefix_between_bounds [OF int_schema_ok e] int_schema_ok e by blast
qed

lemma compare_bounds_with_weight: "compare_bounds_with weight s b1 b2 = compare_bounds s b1 b2"
  by (simp add: compare_bounds_with_def compare_bounds_def)






section \<open>Range tombstones: flip, adjacency, hashing\<close>

text \<open>
  Claim C7. Applying \<open>flip\<close> twice gives back the range tombstone, which is then also equal
  to the original under \<open>range_tombstone::equal\<close> for any well-formed schema; a single
  \<open>flip\<close> swaps the start and end prefixes, replaces each kind by the direction flip of
  the other bound's kind, and keeps the tombstone.
\<close>

theorem flip_involution:
  "flip (flip rt) = rt
   \<and> start_prefix (flip rt) = end_prefix rt \<and> end_prefix (flip rt) = start_prefix rt
   \<and> start_kind (flip rt) = flip_bound_kind (end_kind rt)
   \<and> end_kind (flip rt) = flip_bound_kind (start_kind rt)
   \<and> tomb (flip rt) = tomb rt
   \<and> (schema_ok s \<longrightarrow> range_tombstone_equal s (flip (flip rt)) rt)"
proof -
  have k: "\<And>k. flip_bound_kind (flip_bound_kind k) = k"
    by (case_tac k) simp_all
  have i: "flip (flip rt) = rt" by (simp add: flip_def Let_def k)
  have e: "schema_ok s \<longrightarrow> range_tombstone_equal s rt rt"
    by (simp add: range_tombstone_equal_def bound_equal_def prefix_equal_refl)
  show ?thesis using e unfolding i by (simp add: flip_def Let_def)
qed

theorem flip_involution_witness:
  "schema_ok int_schema
   \<and> range_tombstone_equal int_schema
       (flip (flip \<lparr>start_prefix = [1], start_kind = incl_start, end_prefix = [2, 3],
                   end_kind = excl_end, tomb = \<lparr>timestamp = 5, deletion_time = 7\<rparr>\<rparr>))
       \<lparr>start_prefix = [1], start_kind = incl_start, end_prefix = [2, 3],
        end_kind = excl_end, tomb = \<lparr>timestamp = 5, deletion_time = 7\<rparr>\<rparr>
   \<and> flip \<lparr>start_prefix = [1::int], start_kind = incl_start, end_prefix = [2, 3],
             end_kind = excl_end, tomb = \<lparr>timestamp = 5, deletion_time = 7\<rparr>\<rparr>
       = \<lparr>start_prefix = [2, 3], start_kind = excl_start, end_prefix = [1],
          end_kind = incl_end, tomb = \<lparr>timestamp = 5, deletion_time = 7\<rparr>\<rparr>"
proof -
  have f: "flip \<lparr>start_prefix = [1::int], start_kind = incl_start, end_prefix = [2, 3],
             end_kind = excl_end, tomb = \<lparr>timestamp = 5, deletion_time = 7\<rparr>\<rparr>
       = \<lparr>start_prefix = [2, 3], start_kind = excl_start, end_prefix = [1],
          end_kind = incl_end, tomb = \<lparr>timestamp = 5, deletion_time = 7\<rparr>\<rparr>"
    by (simp add: flip_def)
  show ?thesis
    using flip_involution [of "\<lparr>start_prefix = [1], start_kind = incl_start, end_prefix = [2, 3],
                   end_kind = excl_end, tomb = \<lparr>timestamp = 5, deletion_time = 7\<rparr>\<rparr>" int_schema]
      int_schema_ok f by blast
qed

text \<open>
  Claim C8. Adjacency of bounds is symmetric, and it holds exactly when the prefixes are
  schema-equal and the kinds are complements of each other (\<open>excl_end\<close> with
  \<open>incl_start\<close>, \<open>incl_end\<close> with \<open>excl_start\<close>).
\<close>

theorem adjacent_symmetric:
  assumes "schema_ok s"
  shows "adjacent s a b = adjacent s b a
    \<and> adjacent s a b
        = (prefix_equal s (prefix a) (prefix b)
           \<and> ((kind a = excl_end \<and> kind b = incl_start) \<or> (kind a = incl_start \<and> kind b = excl_end)
              \<or> (kind a = incl_end \<and> kind b = excl_start)
              \<or> (kind a = excl_start \<and> kind b = incl_end)))"
proof -
  have p: "prefix_equal s (prefix a) (prefix b) = prefix_equal s (prefix b) (prefix a)"
    using prefix_equal_sym [OF assms] by blast
  have k: "(invert_kind (kind b) = kind a) = (invert_kind (kind a) = kind b)"
    by (cases "kind a"; cases "kind b") simp_all
  have c: "(invert_kind (kind b) = kind a)
      = ((kind a = excl_end \<and> kind b = incl_start) \<or> (kind a = incl_start \<and> kind b = excl_end)
              \<or> (kind a = incl_end \<and> kind b = excl_start)
              \<or> (kind a = excl_start \<and> kind b = incl_end))"
    by (cases "kind a"; cases "kind b") simp_all
  show ?thesis unfolding adjacent_def using p k c by blast
qed

theorem adjacent_symmetric_witness:
  "schema_ok int_schema
   \<and> adjacent int_schema \<lparr>prefix = [1, 2], kind = excl_end\<rparr> \<lparr>prefix = [1, 2], kind = incl_start\<rparr>
   \<and> adjacent int_schema \<lparr>prefix = [1, 2], kind = incl_start\<rparr> \<lparr>prefix = [1, 2], kind = excl_end\<rparr>"
proof -
  have a: "adjacent int_schema \<lparr>prefix = [1, 2], kind = excl_end\<rparr>
             \<lparr>prefix = [1, 2], kind = incl_start\<rparr>"
    by (simp add: adjacent_def prefix_equal_def int_schema_def int_tri_compare_def)
  show ?thesis
    using adjacent_symmetric [OF int_schema_ok, of "\<lparr>prefix = [1, 2], kind = excl_end\<rparr>"
        "\<lparr>prefix = [1, 2], kind = incl_start\<rparr>"] a int_schema_ok by blast
qed

text \<open>
  Claim C9. \<open>feed_hash\<close> feeds the start prefix first and the tombstone last; in between
  it feeds the start kind, the end prefix and the end kind exactly when the range is not of
  the form: start schema-equal to end, start kind \<open>incl_start\<close>, end kind \<open>incl_end\<close>. The
  condition does not ask for a full clustering key: for a range of that form whose start
  is not full, the three values are skipped although
  \<open>is_single_clustering_row_tombstone\<close> is false.
\<close>

theorem feed_hash_sequence:
  "feed_hash h s rt =
     h @ [Hash_prefix (start_prefix rt)]
       @ (if prefix_equal s (start_prefix rt) (end_prefix rt)
             \<and> start_kind rt = incl_start \<and> end_kind rt = incl_end
          then []
          else [Hash_kind (start_kind rt), Hash_prefix (end_prefix rt), Hash_kind (end_kind rt)])
       @ [Hash_tombstone (tomb rt)]
   \<and> (prefix_equal s (start_prefix rt) (end_prefix rt)
        \<and> start_kind rt = incl_start \<and> end_kind rt = incl_end \<and> \<not> is_full s (start_prefix rt)
      \<longrightarrow> feed_hash h s rt = h @ [Hash_prefix (start_prefix rt), Hash_tombstone (tomb rt)]
          \<and> \<not> is_single_clustering_row_tombstone s (start_prefix rt) (start_kind rt)
                (end_prefix rt) (end_kind rt))"
  by (simp add: feed_hash_def Let_def is_single_clustering_row_tombstone_def)

theorem feed_hash_sequence_witness:
  "prefix_equal int_schema [1] [1] \<and> \<not> is_full int_schema [1]
   \<and> feed_hash [] int_schema
        \<lparr>start_prefix = [1], start_kind = incl_start, end_prefix = [1], end_kind = incl_end,
         tomb = \<lparr>timestamp = 5, deletion_time = 7\<rparr>\<rparr>
      = [Hash_prefix [1], Hash_tombstone \<lparr>timestamp = 5, deletion_time = 7\<rparr>]
   \<and> \<not> is_single_clustering_row_tombstone int_schema [1] incl_start [1] incl_end"
proof -
  have e: "prefix_equal int_schema [1] [1]"
    by (simp add: prefix_equal_def int_schema_def int_tri_compare_def)
  have f: "\<not> is_full int_schema [1]"
    by (simp add: is_full_def int_schema_def)
  show ?thesis
    using feed_hash_sequence [of "[]" int_schema
        "\<lparr>start_prefix = [1], start_kind = incl_start, end_prefix = [1], end_kind = incl_end,
         tomb = \<lparr>timestamp = 5, deletion_time = 7\<rparr>\<rparr>"] e f
    by simp
qed

section \<open>Merging two range tombstones\<close>

lemma weight_invert_kind: "weight (invert_kind k) = weight k"
  by (cases k) simp_all

lemma compare_asym:
  "schema_ok s \<Longrightarrow> compare_prefix_weight s p1 w1 p2 w2 \<Longrightarrow> \<not> compare_prefix_weight s p2 w2 p1 w1"
  using compare_trans [of s p1 w1 p2 w2 p1 w1] compare_irrefl [of s p1 w1] by blast

lemma compare_bounds_asym:
  "schema_ok s \<Longrightarrow> compare_bounds s a b \<Longrightarrow> \<not> compare_bounds s b a"
  unfolding compare_bounds_def by (rule compare_asym)

lemma compare_bounds_irrefl: "schema_ok s \<Longrightarrow> \<not> compare_bounds s a a"
  unfolding compare_bounds_def by (rule compare_irrefl)

lemma abutting_bounds_share_no_position:
  assumes ok: "schema_ok s"
    and a: "compare_prefix_weight s ck w p (weight k)"
    and b: "compare_prefix_weight s p (weight (invert_kind k)) ck w"
  shows False
proof -
  have "compare_prefix_weight s p (weight k) p (weight k)"
    using compare_trans [OF ok _ a, of p "weight k"] b by (simp add: weight_invert_kind)
  then show False using compare_irrefl [OF ok] by blast
qed


text \<open>
  Claim C2. Let \<open>A\<close> and \<open>B\<close> have equal start bounds and let \<open>A.apply(B)\<close> leave \<open>A'\<close>
  and return \<open>r\<close>. Then \<open>A'\<close> carries the tombstone with the strictly higher timestamp,
  that of \<open>A\<close> on a tie; its start bound is that of \<open>A\<close>; its end bound is the minimum of
  the two end bounds (one of them, with neither strictly before it). If the loser's end
  bound lies strictly beyond that minimum, \<open>r\<close> is a remainder that starts at the minimum
  with the complementary kind (so it is adjacent to the end bound of \<open>A'\<close>), ends at the
  loser's end bound, carries the loser's tombstone and does not overlap \<open>A'\<close>: its start
  bound is not before the end bound of \<open>A'\<close>, and no clustering position is covered by
  both. Otherwise there is no remainder.
\<close>

theorem range_tombstone_apply_merge:
  assumes ok: "schema_ok s"
    and st: "bound_equal s (start_bound A) (start_bound B)"
    and ap: "range_tombstone_apply s A B = (A', r)"
  shows "tomb A' = (if timestamp (tomb A) < timestamp (tomb B) then tomb B else tomb A)
    \<and> start_bound A' = start_bound A
    \<and> end_bound A' = (if compare_bounds s (end_bound B) (end_bound A) then end_bound B
                       else end_bound A)
    \<and> \<not> compare_bounds s (end_bound A) (end_bound A')
    \<and> \<not> compare_bounds s (end_bound B) (end_bound A')
    \<and> (let loser = (if timestamp (tomb A) < timestamp (tomb B) then A else B) in
        if compare_bounds s (end_bound A') (end_bound loser)
        then \<exists>R. r = Some R
               \<and> start_prefix R = end_prefix A' \<and> start_kind R = invert_kind (end_kind A')
               \<and> adjacent s (start_bound R) (end_bound A')
               \<and> end_bound R = end_bound loser \<and> tomb R = tomb loser
               \<and> \<not> compare_bounds s (start_bound R) (end_bound A')
               \<and> (\<forall>ck. \<not> (covers s A' ck \<and> covers s R ck))
        else r = None)"
proof -
  define m where "m = (if compare_bounds s (end_bound B) (end_bound A) then end_bound B
                       else end_bound A)"
  define loser where "loser = (if timestamp (tomb A) < timestamp (tomb B) then A else B)"
  have A': "A' = A\<lparr>end_prefix := prefix m, end_kind := kind m,
        tomb := (if timestamp (tomb A) < timestamp (tomb B) then tomb B else tomb A)\<rparr>"
    using ap by (simp add: range_tombstone_apply_def Let_def m_def)
  have r: "r = (if compare_bounds s m (end_bound loser)
             then Some \<lparr>start_prefix = prefix m, start_kind = invert_kind (kind m),
                        end_prefix = end_prefix loser, end_kind = end_kind loser,
                        tomb = tomb loser\<rparr>
             else None)"
    using ap unfolding range_tombstone_apply_def Let_def m_def loser_def
    by (simp only: prod.inject if_distrib [of end_bound] if_distrib [of tomb])
  have em: "end_bound A' = m" by (simp add: A' end_bound_def)
  have t: "tomb A' = (if timestamp (tomb A) < timestamp (tomb B) then tomb B else tomb A)"
    by (simp add: A')
  have sb: "start_bound A' = start_bound A" by (simp add: A' start_bound_def)
  have m1: "\<not> compare_bounds s (end_bound A) m"
    using compare_bounds_asym [OF ok] compare_bounds_irrefl [OF ok] by (auto simp: m_def)
  have m2: "\<not> compare_bounds s (end_bound B) m"
    using compare_bounds_irrefl [OF ok] by (auto simp: m_def)
  have rem: "if compare_bounds s m (end_bound loser)
        then \<exists>R. r = Some R
               \<and> start_prefix R = end_prefix A' \<and> start_kind R = invert_kind (end_kind A')
               \<and> adjacent s (start_bound R) (end_bound A')
               \<and> end_bound R = end_bound loser \<and> tomb R = tomb loser
               \<and> \<not> compare_bounds s (start_bound R) (end_bound A')
               \<and> (\<forall>ck. \<not> (covers s A' ck \<and> covers s R ck))
        else r = None"
  proof (cases "compare_bounds s m (end_bound loser)")
    case False
    then show ?thesis by (simp add: r)
  next
    case True
    define R where "R = \<lparr>start_prefix = prefix m, start_kind = invert_kind (kind m),
                        end_prefix = end_prefix loser, end_kind = end_kind loser,
                        tomb = tomb loser\<rparr>"
    have rR: "r = Some R" using True by (simp add: r R_def)
    have p1: "start_prefix R = end_prefix A'" "start_kind R = invert_kind (end_kind A')"
      by (simp_all add: R_def A')
    have adj: "adjacent s (start_bound R) (end_bound A')"
      by (simp add: adjacent_def em R_def start_bound_def prefix_equal_refl [OF ok])
    have e: "end_bound R = end_bound loser" "tomb R = tomb loser"
      by (simp_all add: R_def end_bound_def)
    have nb: "\<not> compare_bounds s (start_bound R) (end_bound A')"
      using prefix_equal_refl [OF ok, of "prefix m"]
      by (simp add: em compare_bounds_def R_def start_bound_def compare_prefix_equal
          weight_invert_kind)
    have no: "\<not> (covers s A' ck \<and> covers s R ck)" for ck
    proof
      assume c: "covers s A' ck \<and> covers s R ck"
      then have "compare_prefix_weight s ck 0 (prefix m) (weight (kind m))"
        using em by (simp add: covers_def compare_prefix_bound_def)
      moreover have "compare_prefix_weight s (prefix m) (weight (invert_kind (kind m))) ck 0"
        using c by (simp add: covers_def compare_bound_prefix_def R_def start_bound_def)
      ultimately show False using abutting_bounds_share_no_position [OF ok] by blast
    qed
    show ?thesis using True rR p1 adj e nb no by auto
  qed
  show ?thesis
    using t sb em m1 m2 rem unfolding Let_def loser_def [symmetric] m_def [symmetric] by simp
qed

theorem range_tombstone_apply_merge_witness:
  "schema_ok int_schema
   \<and> bound_equal int_schema
       (start_bound \<lparr>start_prefix = [1], start_kind = incl_start, end_prefix = [5],
                    end_kind = incl_end, tomb = \<lparr>timestamp = 10, deletion_time = 0\<rparr>\<rparr>)
       (start_bound \<lparr>start_prefix = [1], start_kind = incl_start, end_prefix = [3],
                    end_kind = incl_end, tomb = \<lparr>timestamp = 20, deletion_time = 0\<rparr>\<rparr>)
   \<and> range_tombstone_apply int_schema
       \<lparr>start_prefix = [1], start_kind = incl_start, end_prefix = [5],
        end_kind = incl_end, tomb = \<lparr>timestamp = 10, deletion_time = 0\<rparr>\<rparr>
       \<lparr>start_prefix = [1], start_kind = incl_start, end_prefix = [3],
        end_kind = incl_end, tomb = \<lparr>timestamp = 20, deletion_time = 0\<rparr>\<rparr>
     = (\<lparr>start_prefix = [1], start_kind = incl_start, end_prefix = [3],
         end_kind = incl_end, tomb = \<lparr>timestamp = 20, deletion_time = 0\<rparr>\<rparr>,
        Some \<lparr>start_prefix = [3], start_kind = excl_start, end_prefix = [5],
              end_kind = incl_end, tomb = \<lparr>timestamp = 10, deletion_time = 0\<rparr>\<rparr>)
   \<and> \<not> compare_bounds int_schema \<lparr>prefix = [5], kind = incl_end\<rparr> \<lparr>prefix = [3], kind = incl_end\<rparr>
   \<and> \<not> compare_bounds int_schema \<lparr>prefix = [3], kind = incl_end\<rparr> \<lparr>prefix = [3], kind = incl_end\<rparr>"
proof -
  let ?A = "\<lparr>start_prefix = [1::int], start_kind = incl_start, end_prefix = [5],
        end_kind = incl_end, tomb = \<lparr>timestamp = 10, deletion_time = 0\<rparr>\<rparr>"
  let ?B = "\<lparr>start_prefix = [1::int], start_kind = incl_start, end_prefix = [3],
        end_kind = incl_end, tomb = \<lparr>timestamp = 20, deletion_time = 0\<rparr>\<rparr>"
  let ?A' = "\<lparr>start_prefix = [1::int], start_kind = incl_start, end_prefix = [3],
         end_kind = incl_end, tomb = \<lparr>timestamp = 20, deletion_time = 0\<rparr>\<rparr>"
  let ?R = "\<lparr>start_prefix = [3::int], start_kind = excl_start, end_prefix = [5],
              end_kind = incl_end, tomb = \<lparr>timestamp = 10, deletion_time = 0\<rparr>\<rparr>"
  have st: "bound_equal int_schema (start_bound ?A) (start_bound ?B)"
    by (simp add: bound_equal_def start_bound_def prefix_equal_def int_schema_def
        int_tri_compare_def)
  have ap: "range_tombstone_apply int_schema ?A ?B = (?A', Some ?R)"
    by (simp add: range_tombstone_apply_def Let_def end_bound_def compare_bounds_def
        compare_prefix_weight_def int_schema_def int_tri_compare_def)
  show ?thesis
    using range_tombstone_apply_merge [OF int_schema_ok st ap] int_schema_ok st ap
    by (simp add: end_bound_def)
qed

section \<open>The accumulator: order of positions\<close>






lemma before_trans: "schema_ok s \<Longrightarrow> before s a b \<Longrightarrow> before s b c \<Longrightarrow> before s a c"
  unfolding before_def by (rule compare_trans)


lemma before_cases:
  assumes ok: "schema_ok s" and ac: "before s a c"
  shows "before s a b \<or> before s b c"
proof (rule ccontr)
  assume n: "\<not> (before s a b \<or> before s b c)"
  then have nab: "\<not> before s a b" and nbc: "\<not> before s b c" by simp_all
  have nba: "\<not> before s b a" using before_trans [OF ok _ ac, of b] nbc by blast
  have ncb: "\<not> before s c b" using before_trans [OF ok ac, of b] nab by blast
  have "\<not> compare_prefix_weight s (fst a) (snd a) (fst c) (snd c)"
    using compare_equiv_trans [OF ok, of "fst a" "snd a" "fst b" "snd b" "fst c" "snd c"]
      nab nba nbc ncb by (simp add: before_def)
  then show False using ac by (simp add: before_def)
qed


lemma before_not_after_trans: "schema_ok s \<Longrightarrow> before s a b \<Longrightarrow> \<not> before s c b \<Longrightarrow> before s a c"
  using before_cases [of s a b c] by blast

lemma not_after_before_trans: "schema_ok s \<Longrightarrow> \<not> before s b a \<Longrightarrow> before s b c \<Longrightarrow> before s a c"
  using before_cases [of s b c a] by blast

lemma weight_nonzero: "weight k \<noteq> 0"
  by (cases k) simp_all

lemma row_bound_total:
  assumes "schema_ok s" 
  shows "before s (row_point ck) (bound_point b) \<or> before s (bound_point b) (row_point ck)"
  using compare_equiv [OF assms, of ck 0 "prefix b" "weight (kind b)"] weight_nonzero [of "kind b"]
  by (auto simp: before_def row_point_def bound_point_def)

lemma row_start_total: "schema_ok s \<Longrightarrow> before s (row_point ck) (start_point x) \<or> before s (start_point x) (row_point ck)"
  unfolding start_point_def by (rule row_bound_total)

lemma row_end_total: "schema_ok s \<Longrightarrow> before s (row_point ck) (end_point x) \<or> before s (end_point x) (row_point ck)"
  unfolding end_point_def by (rule row_bound_total)



lemma split_before_points [simp]:
  "start_point (split_before x b) = start_point x" "end_point (split_before x b) = bound_point b"
  "tomb (split_before x b) = tomb x"
  by (simp_all add: split_before_def start_point_def end_point_def start_bound_def end_bound_def bound_point_def
      weight_invert_kind)

lemma split_from_points [simp]:
  "start_point (split_from x b) = bound_point b" "end_point (split_from x b) = end_point x"
  "tomb (split_from x b) = tomb x"
  by (simp_all add: split_from_def start_point_def end_point_def start_bound_def end_bound_def bound_point_def)


lemma tail_points [simp]:
  "start_point \<lparr>start_prefix = end_prefix x', start_kind = invert_kind (end_kind x'),
       end_prefix = end_prefix y, end_kind = end_kind y, tomb = t\<rparr> = end_point x'"
  "end_point \<lparr>start_prefix = p, start_kind = k,
       end_prefix = end_prefix y, end_kind = end_kind y, tomb = t\<rparr> = end_point y"
  by (simp_all add: start_point_def end_point_def start_bound_def end_bound_def bound_point_def weight_invert_kind)

section \<open>The accumulator: inserting a fragment\<close>







section \<open>The accumulator: the buffered sequence stays in order\<close>




lemma call_schema [simp]: "cmp_schema (call fresh acc c) = cmp_schema acc"
  by (cases c)
     (simp_all add: set_partition_tombstone_def update_current_tombstone_def
       tombstone_for_row_def drop_unneeded_tombstones_def Let_def accumulator_apply_def clear_def)

lemma call_reversed [simp]: "reversed (call fresh acc c) = reversed acc"
  by (cases c)
     (simp_all add: set_partition_tombstone_def update_current_tombstone_def
       tombstone_for_row_def drop_unneeded_tombstones_def Let_def accumulator_apply_def clear_def)

lemma call_accumulator_schema [simp]:
  "accumulator_schema (call fresh acc c) = accumulator_schema acc"
  by (simp add: accumulator_schema_def)
















lemma example_rows:
  "map (\<lambda>ck. fst (tombstone_for_row
                   (foldl (call example_fresh)
                      (set_partition_tombstone
                         (range_tombstone_accumulator_init int_schema False example_fresh)
                         example_partition_tombstone)
                      [Apply example_rt1, Apply example_rt2]) ck))
     [[1], [2], [3], [4], [5]]
   = [tomb example_rt1, tomb example_rt2, tomb example_rt2, example_partition_tombstone,
      example_partition_tombstone]"
  unfolding example_rt1_def example_rt2_def example_fresh_def example_partition_tombstone_def
  by code_simp



end
